theory Spec2Isabelle
  imports Main
begin

section \<open>Python strings\<close>

text \<open>
  The validators of \<^verbatim>\<open>backend/validators.py\<close> inspect a SQL string with
  \<^verbatim>\<open>str.strip\<close>, \<^verbatim>\<open>str.lower\<close> and the substring test \<^verbatim>\<open>in\<close>. A Python string is a
  sequence of code points; the model is \<^typ>\<open>string\<close>, so it covers the code points
  below 256 (ASCII and Latin-1), each \<^typ>\<open>char\<close> read as its code point.

  \<^verbatim>\<open>str.isspace\<close> holds below 256 for the code points 9 to 13, 28 to 32, 133 and 160;
  \<^verbatim>\<open>str.lower\<close> moves A to Z and the Latin-1 capitals (192 to 222 without the
  multiplication sign 215) up by 32 and leaves every other code point alone.
\<close>

definition isspace :: "char \<Rightarrow> bool" where
  "isspace c =
     (let n = (of_char c :: nat)
      in (9 \<le> n \<and> n \<le> 13) \<or> (28 \<le> n \<and> n \<le> 32) \<or> n = 133 \<or> n = 160)"

definition lower_char :: "char \<Rightarrow> char" where
  "lower_char c =
     (let n = (of_char c :: nat)
      in if (65 \<le> n \<and> n \<le> 90) \<or> (192 \<le> n \<and> n \<le> 222 \<and> n \<noteq> 215)
         then char_of (n + 32) else c)"

definition lower :: "string \<Rightarrow> string" where
  "lower s = map lower_char s"

text \<open>\<^verbatim>\<open>s.strip()\<close> removes the leading and the trailing run of whitespace.\<close>

definition strip :: "string \<Rightarrow> string" where
  "strip s = rev (dropWhile isspace (rev (dropWhile isspace s)))"

text \<open>\<^verbatim>\<open>s.strip(chars)\<close> removes the leading and the trailing run of characters of \<open>chars\<close>.\<close>

definition strip_chars :: "string \<Rightarrow> string \<Rightarrow> string" where
  "strip_chars chars s =
     rev (dropWhile (\<lambda>c. c \<in> set chars) (rev (dropWhile (\<lambda>c. c \<in> set chars) s)))"

fun startswith :: "string \<Rightarrow> string \<Rightarrow> bool" where
  "startswith s [] = True"
| "startswith [] (k # ks) = False"
| "startswith (c # cs) (k # ks) = (c = k \<and> startswith cs ks)"

text \<open>\<^verbatim>\<open>keyword in s\<close>: the keyword starts at some position of \<open>s\<close>.\<close>

fun str_contains :: "string \<Rightarrow> string \<Rightarrow> bool" where
  "str_contains keyword [] = (keyword = [])"
| "str_contains keyword (c # cs) = (startswith (c # cs) keyword \<or> str_contains keyword cs)"

section \<open>Exceptions and verdicts\<close>

text \<open>
  Every handler of the module is \<^verbatim>\<open>except Exception as e\<close> and formats \<^verbatim>\<open>{e}\<close>, so an
  exception is modelled by its \<^verbatim>\<open>str(e)\<close>. A computation that may raise returns
  \<open>exn + 'a\<close>, \<open>Inl\<close> being the raised exception. Only instances of
  \<^verbatim>\<open>Exception\<close> are modelled; \<^verbatim>\<open>KeyboardInterrupt\<close> and \<^verbatim>\<open>SystemExit\<close>, which no
  handler of the module catches, are not.
\<close>

datatype exn = Exception string

type_synonym verdict = "bool \<times> string"

section \<open>The SQL parser\<close>

text \<open>
  Modelled from the spec: the parser is the third-party library \<^verbatim>\<open>sqlparse\<close>, which is
  not part of the repository. Section 6 of the specification gives the part of its interface
  the validators consume: a token exposes \<^verbatim>\<open>is_whitespace\<close>, \<^verbatim>\<open>is_keyword\<close> and
  \<^verbatim>\<open>normalized\<close> and a tag telling a parenthesized group from a leaf; a statement owns
  a sequence of tokens; \<^verbatim>\<open>flatten\<close> expands every group recursively into one linear,
  order-preserving stream; \<^verbatim>\<open>token_first(skip_ws=True)\<close> is the first token of the
  statement that is not whitespace, or \<^verbatim>\<open>None\<close>. A group is neither whitespace nor a
  keyword. The function \<^verbatim>\<open>sqlparse.parse\<close> itself is a parameter of the model: any
  function from strings to a raised exception or a sequence of statements.
\<close>

datatype token =
    Leaf bool bool string
  | Group bool string "token list"

text \<open>
  \<open>Leaf w k n\<close>: a lexical token with \<^verbatim>\<open>is_whitespace = w\<close>, \<^verbatim>\<open>is_keyword = k\<close>,
  \<^verbatim>\<open>normalized = n\<close>. \<open>Group p n ts\<close>: a token list with sub-tokens \<open>ts\<close> and
  \<^verbatim>\<open>normalized = n\<close>, an instance of \<^verbatim>\<open>Parenthesis\<close> iff \<open>p\<close>.
\<close>

fun is_whitespace :: "token \<Rightarrow> bool" where
  "is_whitespace (Leaf w k n) = w"
| "is_whitespace (Group p n ts) = False"

fun is_keyword :: "token \<Rightarrow> bool" where
  "is_keyword (Leaf w k n) = k"
| "is_keyword (Group p n ts) = False"

fun normalized :: "token \<Rightarrow> string" where
  "normalized (Leaf w k n) = n"
| "normalized (Group p n ts) = n"

fun isinstance_Parenthesis :: "token \<Rightarrow> bool" where
  "isinstance_Parenthesis (Leaf w k n) = False"
| "isinstance_Parenthesis (Group p n ts) = p"

text \<open>
  Modelled from the spec: \<^verbatim>\<open>flatten()\<close> of the library, which yields the leaf tokens of a
  token tree in source order and never a group.
\<close>

fun flatten :: "token \<Rightarrow> token list" where
  "flatten (Leaf w k n) = [Leaf w k n]"
| "flatten (Group p n ts) = concat (map flatten ts)"

text \<open>A statement is given by its top-level tokens.\<close>

type_synonym statement = "token list"

definition statement_flatten :: "statement \<Rightarrow> token list" where
  "statement_flatten st = concat (map flatten st)"

text \<open>
  Modelled from the spec: \<^verbatim>\<open>token_first(skip_ws=True)\<close> of the library, over the top-level
  tokens of the statement.
\<close>

fun token_first :: "statement \<Rightarrow> token option" where
  "token_first [] = None"
| "token_first (t # ts) = (if is_whitespace t then token_first ts else Some t)"

type_synonym parser = "string \<Rightarrow> exn + statement list"

section \<open>The validation rules\<close>

subsection \<open>ForbiddenKeywordsRule\<close>

definition FORBIDDEN_KEYWORDS :: "string list" where
  "FORBIDDEN_KEYWORDS =
     [''insert '', ''update '', ''delete '', ''drop '', ''alter '', ''truncate '',
      ''create '', ''exec '', ''xp_'']"

definition ForbiddenKeywordsRule_validate :: "string \<Rightarrow> exn + verdict" where
  "ForbiddenKeywordsRule_validate sql_query =
     (let lower_query = lower (strip sql_query)
      in if list_ex (\<lambda>keyword. str_contains keyword lower_query) FORBIDDEN_KEYWORDS
         then Inr (False, ''Forbidden SQL keywords detected. Only SELECT queries are allowed.'')
         else Inr (True, ''''))"

subsection \<open>OnlySelectStatementsRule\<close>

text \<open>The \<^verbatim>\<open>for statement in parsed_statements\<close> loop and the \<^verbatim>\<open>return True, ""\<close> after it.\<close>

fun check_statement_types :: "statement list \<Rightarrow> verdict" where
  "check_statement_types [] = (True, '''')"
| "check_statement_types (st # rest) =
     (case token_first st of
        None \<Rightarrow>
          (False, ''Invalid SQL statement structure: Cannot determine statement type.'')
      | Some first_token \<Rightarrow>
          (let statement_type = normalized first_token
           in if statement_type \<noteq> ''SELECT''
              then (False, ''Forbidden statement type '' @ [CHR 0x27] @ statement_type @
                           [CHR 0x27] @ '' detected. Only SELECT queries are allowed.'')
              else check_statement_types rest))"

text \<open>The body of the \<^verbatim>\<open>try\<close> block: only the call of the parser can raise.\<close>

definition OnlySelectStatementsRule_try :: "parser \<Rightarrow> string \<Rightarrow> exn + verdict" where
  "OnlySelectStatementsRule_try parse sql_query =
     (case parse sql_query of
        Inl e \<Rightarrow> Inl e
      | Inr parsed_statements \<Rightarrow>
          if parsed_statements = [] then Inr (False, ''No valid SQL statements found.'')
          else Inr (check_statement_types parsed_statements))"

definition OnlySelectStatementsRule_validate :: "parser \<Rightarrow> string \<Rightarrow> exn + verdict" where
  "OnlySelectStatementsRule_validate parse sql_query =
     (case OnlySelectStatementsRule_try parse sql_query of
        Inl (Exception e) \<Rightarrow>
          Inr (False, ''SQL parsing error during statement type check: '' @ e)
      | Inr v \<Rightarrow> Inr v)"

subsection \<open>WhitelistedTablesRule\<close>

text \<open>
  The inner \<^verbatim>\<open>while current_idx < len(flattened_tokens)\<close> loop, started at the index after
  the keyword: the first token from there on that is not whitespace.
\<close>

fun next_non_whitespace :: "token list \<Rightarrow> token option" where
  "next_non_whitespace [] = None"
| "next_non_whitespace (next_token # rest) =
     (if \<not> is_whitespace next_token then Some next_token else next_non_whitespace rest)"

definition table_name_of :: "token \<Rightarrow> string" where
  "table_name_of table_name_candidate_token =
     lower (strip_chars [CHR 0x60]
       (strip_chars [CHR 0x27]
         (strip_chars [CHR 0x22] (normalized table_name_candidate_token))))"

text \<open>
  The \<^verbatim>\<open>for i, token in enumerate(flattened_tokens)\<close> loop, on the tokens from index
  \<open>i\<close> on: \<open>Some v\<close> when the loop returns the verdict \<open>v\<close>, \<open>None\<close> when it runs to its end.
\<close>

fun check_tables :: "string list \<Rightarrow> token list \<Rightarrow> verdict option" where
  "check_tables allowed_tables [] = None"
| "check_tables allowed_tables (tok # rest) =
     (if is_keyword tok \<and> (normalized tok = ''FROM'' \<or> normalized tok = ''JOIN'')
      then (case next_non_whitespace rest of
              None \<Rightarrow> Some (False, ''Could not identify table name after FROM/JOIN clause.'')
            | Some table_name_candidate_token \<Rightarrow>
                if isinstance_Parenthesis table_name_candidate_token
                then check_tables allowed_tables rest
                else (let table_name = table_name_of table_name_candidate_token
                      in if table_name \<notin> set allowed_tables
                         then Some (False, ''Access to table/object '' @ [CHR 0x27] @ table_name @
                                           [CHR 0x27] @ '' is not allowed.'')
                         else check_tables allowed_tables rest))
      else check_tables allowed_tables rest)"

text \<open>
  The body of the \<^verbatim>\<open>try\<close> block. The call of the parser is where it can raise; the
  flattening of a finite token tree always returns.
\<close>

definition WhitelistedTablesRule_try ::"parser \<Rightarrow> string list \<Rightarrow> string \<Rightarrow> exn + verdict option" where
  "WhitelistedTablesRule_try parse allowed_tables sql_query =
     (case parse sql_query of
        Inl e \<Rightarrow> Inl e
      | Inr parsed_statements \<Rightarrow>
          (case parsed_statements of
             [] \<Rightarrow> Inr (Some (False, ''No valid SQL statements found for table check.''))
           | stmt # later \<Rightarrow> Inr (check_tables allowed_tables (statement_flatten stmt))))"

definition WhitelistedTablesRule_validate :: "parser \<Rightarrow> string list \<Rightarrow> string \<Rightarrow> exn + verdict" where
  "WhitelistedTablesRule_validate parse allowed_tables sql_query =
     (case WhitelistedTablesRule_try parse allowed_tables sql_query of
        Inl (Exception e) \<Rightarrow>
          Inr (False, ''SQL parsing error during table whitelist check: '' @ e)
      | Inr (Some v) \<Rightarrow> Inr v
      | Inr None \<Rightarrow> Inr (True, ''''))"

subsection \<open>The rule objects\<close>

text \<open>
  A rule object is an instance of a subclass of the abstract class \<^verbatim>\<open>ValidationRule\<close>:
  one of the three classes of the module (\<open>WhitelistedTablesRule\<close> carries its field
  \<^verbatim>\<open>allowed_tables\<close>), or any other subclass, given by its \<^verbatim>\<open>validate\<close> method. The
  optional argument \<^verbatim>\<open>db_response\<close> is read by none of the three rules and is left out.
\<close>

datatype rule =
    ForbiddenKeywordsRule
  | OnlySelectStatementsRule
  | WhitelistedTablesRule "string list"
  | OtherRule "string \<Rightarrow> exn + verdict"

text \<open>\<^verbatim>\<open>WhitelistedTablesRule.__init__\<close> stores the allowed names lower-cased.\<close>

definition WhitelistedTablesRule_init :: "string list \<Rightarrow> rule" where
  "WhitelistedTablesRule_init allowed_tables = WhitelistedTablesRule (map lower allowed_tables)"

fun validate :: "parser \<Rightarrow> rule \<Rightarrow> string \<Rightarrow> exn + verdict" where
  "validate parse ForbiddenKeywordsRule sql_query = ForbiddenKeywordsRule_validate sql_query"
| "validate parse OnlySelectStatementsRule sql_query =
     OnlySelectStatementsRule_validate parse sql_query"
| "validate parse (WhitelistedTablesRule allowed_tables) sql_query =
     WhitelistedTablesRule_validate parse allowed_tables sql_query"
| "validate parse (OtherRule f) sql_query = f sql_query"

section \<open>RuleExecutor\<close>

text \<open>
  The loop of \<^verbatim>\<open>execute_rules\<close>, with the rules whose \<^verbatim>\<open>validate\<close> it calls recorded in
  call order beside the outcome. An exception raised by a rule is not handled by the
  executor and leaves the loop.
\<close>

fun execute_rules_calls :: "parser \<Rightarrow> rule list \<Rightarrow> string \<Rightarrow> rule list \<times> (exn + verdict)" where
  "execute_rules_calls parse [] sql_query = ([], Inr (True, ''All rules passed.''))"
| "execute_rules_calls parse (r # rules) sql_query =
     (case validate parse r sql_query of
        Inl e \<Rightarrow> ([r], Inl e)
      | Inr (is_valid, message) \<Rightarrow>
          if \<not> is_valid then ([r], Inr (False, message))
          else (case execute_rules_calls parse rules sql_query of
                  (calls, outcome) \<Rightarrow> (r # calls, outcome)))"

definition execute_rules :: "parser \<Rightarrow> rule list \<Rightarrow> string \<Rightarrow> exn + verdict" where
  "execute_rules parse rules sql_query = snd (execute_rules_calls parse rules sql_query)"

definition rules_called :: "parser \<Rightarrow> rule list \<Rightarrow> string \<Rightarrow> rule list" where
  "rules_called parse rules sql_query = fst (execute_rules_calls parse rules sql_query)"

section \<open>Notions used in the statements\<close>

text \<open>A statement whose first token that is not whitespace exists and reads \<open>SELECT\<close>.\<close>

definition is_select :: "statement \<Rightarrow> bool" where
  "is_select st =
     (case token_first st of None \<Rightarrow> False | Some tok \<Rightarrow> normalized tok = ''SELECT'')"

text \<open>The test of the walk: a keyword token normalized to \<open>FROM\<close> or \<open>JOIN\<close>.\<close>

definition is_from_join :: "token \<Rightarrow> bool" where
  "is_from_join tok = (is_keyword tok \<and> (normalized tok = ''FROM'' \<or> normalized tok = ''JOIN''))"

text \<open>
  The keyword at index \<open>i\<close> of the stream has a target, the next token after it that is not
  whitespace, and the target's table name is in the allowed list.
\<close>

definition target_allowed :: "string list \<Rightarrow> token list \<Rightarrow> nat \<Rightarrow> bool" where
  "target_allowed allowed toks i =
     (case next_non_whitespace (drop (Suc i) toks) of
        None \<Rightarrow> False
      | Some c \<Rightarrow> table_name_of c \<in> set allowed)"

text \<open>The rules of the module itself, as opposed to any other subclass of \<^verbatim>\<open>ValidationRule\<close>.\<close>

fun is_module_rule :: "rule \<Rightarrow> bool" where
  "is_module_rule (OtherRule f) = False"
| "is_module_rule r = True"

section \<open>Parses of the example queries\<close>

text \<open>
  The parser being a parameter, a concrete evaluation needs concrete parses. The table below
  records the statements the library returns for the example queries: the lexer's tokens in
  source order (keywords with their upper-cased text as \<^verbatim>\<open>normalized\<close>), names grouped
  into identifiers, a parenthesized subquery grouped into a \<^verbatim>\<open>Parenthesis\<close>, and the
  whitespace after a semicolon kept with the statement the semicolon ends; the empty string
  has no statements. On an input outside the table \<open>example_parse\<close> raises.
\<close>

abbreviation keyword_token :: "string \<Rightarrow> token" where
  "keyword_token n \<equiv> Leaf False True n"

abbreviation whitespace_token :: token where
  "whitespace_token \<equiv> Leaf True False '' ''"

abbreviation plain_token :: "string \<Rightarrow> token" where
  "plain_token n \<equiv> Leaf False False n"

abbreviation identifier_group :: "string \<Rightarrow> token" where
  "identifier_group n \<equiv> Group False n [Leaf False False n]"

definition select_from_tokens :: "string \<Rightarrow> token list" where
  "select_from_tokens table =
     [keyword_token ''SELECT'', whitespace_token, plain_token ''*'', whitespace_token,
      keyword_token ''FROM'', whitespace_token, identifier_group table]"

definition subquery_statement :: statement where
  "subquery_statement =
     [keyword_token ''SELECT'', whitespace_token, plain_token ''*'', whitespace_token,
      keyword_token ''FROM'', whitespace_token,
      Group False ''(SELECT a FROM t) AS x''
        [Group True ''(SELECT a FROM t)''
           [plain_token ''('', keyword_token ''SELECT'', whitespace_token,
            identifier_group ''a'', whitespace_token, keyword_token ''FROM'',
            whitespace_token, identifier_group ''t'', plain_token '')''],
         whitespace_token, keyword_token ''AS'', whitespace_token, identifier_group ''x'']]"

definition example_parses :: "(string \<times> statement list) list" where
  "example_parses =
     [(''SELECT 1'',
         [[keyword_token ''SELECT'', whitespace_token, plain_token ''1'']]),
      (''SELECT * FROM client_info_view'',
         [select_from_tokens ''client_info_view'']),
      (''SELECT name FROM secret_table'',
         [[keyword_token ''SELECT'', whitespace_token, keyword_token ''NAME'', whitespace_token,
           keyword_token ''FROM'', whitespace_token, identifier_group ''secret_table'']]),
      (''SELECT * FROM (SELECT a FROM t) AS x'',
         [subquery_statement]),
      (''SELECT * FROM client_info_view; SELECT * FROM secret_table'',
         [select_from_tokens ''client_info_view'' @ [plain_token '';'', whitespace_token],
          select_from_tokens ''secret_table'']),
      (''SELECT * FROM client_info_view; SELECT 1'',
         [select_from_tokens ''client_info_view'' @ [plain_token '';'', whitespace_token],
          [keyword_token ''SELECT'', whitespace_token, plain_token ''1'']]),
      (''SELECT 1; DROP TABLE secret_table'',
         [[keyword_token ''SELECT'', whitespace_token, plain_token ''1'', plain_token '';'',
           whitespace_token],
          [keyword_token ''DROP'', whitespace_token, keyword_token ''TABLE'', whitespace_token,
           identifier_group ''secret_table'']]),
      (''SELECT 1 FROM'',
         [[keyword_token ''SELECT'', whitespace_token, plain_token ''1'', whitespace_token,
           keyword_token ''FROM'']]),
      ('''', [])]"

definition example_parse :: parser where
  "example_parse sql_query =
     (case map_of example_parses sql_query of
        Some parsed_statements \<Rightarrow> Inr parsed_statements
      | None \<Rightarrow> Inl (Exception ''no parse recorded''))"


section \<open>Substring search and trimming\<close>

lemma startswith_iff: "startswith s k \<longleftrightarrow> (\<exists>q. s = k @ q)"
  by (induction s k rule: startswith.induct) auto

lemma str_contains_iff: "str_contains k s \<longleftrightarrow> (\<exists>p q. s = p @ k @ q)"
proof (induction s)
  case Nil
  then show ?case by simp
next
  case (Cons c cs)
  show ?case
  proof
    assume "str_contains k (c # cs)"
    then consider "startswith (c # cs) k" | "str_contains k cs" by auto
    then show "\<exists>p q. c # cs = p @ k @ q"
    proof cases
      case 1
      then obtain q where "c # cs = k @ q" by (auto simp: startswith_iff)
      then have "c # cs = [] @ k @ q" by simp
      then show ?thesis by blast
    next
      case 2
      with Cons obtain p q where "cs = p @ k @ q" by blast
      then have "c # cs = (c # p) @ k @ q" by simp
      then show ?thesis by blast
    qed
  next
    assume "\<exists>p q. c # cs = p @ k @ q"
    then obtain p q where e: "c # cs = p @ k @ q" by blast
    show "str_contains k (c # cs)"
    proof (cases p)
      case Nil
      with e have "startswith (c # cs) k" by (auto simp: startswith_iff)
      then show ?thesis by simp
    next
      case (Cons a p')
      with e have "cs = p' @ k @ q" by simp
      with Cons.IH have "str_contains k cs" by blast
      then show ?thesis by simp
    qed
  qed
qed

lemma strip_last: "strip s \<noteq> [] \<Longrightarrow> \<not> isspace (last (strip s))"
  unfolding strip_def by (simp add: last_rev hd_dropWhile)

lemma isspace_space: "isspace (CHR '' '')"
  by (simp add: isspace_def)

lemma lower_char_space: "lower_char c = CHR '' '' \<Longrightarrow> c = CHR '' ''"
proof -
  assume a: "lower_char c = CHR '' ''"
  show ?thesis
  proof (cases "(65 \<le> (of_char c :: nat) \<and> (of_char c :: nat) \<le> 90) \<or> (192 \<le> (of_char c :: nat) \<and> (of_char c :: nat) \<le> 222 \<and> (of_char c :: nat) \<noteq> 215)")
    case True
    with a have "char_of ((of_char c :: nat) + 32) = CHR '' ''" by (simp add: lower_char_def Let_def)
    then have "(of_char (char_of ((of_char c :: nat) + 32) :: char) :: nat) = of_char (CHR '' '')" by simp
    then have "((of_char c :: nat) + 32) mod 256 = 32" by (simp add: of_char_of)
    with True show ?thesis by auto
  next
    case False
    with a show ?thesis by (simp add: lower_char_def Let_def)
  qed
qed

lemma lower_strip_last: "lower (strip s) \<noteq> [] \<Longrightarrow> last (lower (strip s)) \<noteq> CHR '' ''"
proof
  assume n: "lower (strip s) \<noteq> []" and l: "last (lower (strip s)) = CHR '' ''"
  from n have n': "strip s \<noteq> []" by (simp add: lower_def)
  with l have "lower_char (last (strip s)) = CHR '' ''" by (simp add: lower_def last_map)
  then have "last (strip s) = CHR '' ''" by (rule lower_char_space)
  with strip_last[OF n'] isspace_space show False by simp
qed

section \<open>ForbiddenKeywordsRule\<close>

text \<open>
  C1. For every input string \<open>s\<close>, \<open>ForbiddenKeywordsRule.validate\<close> returns the failing
  verdict with the message "Forbidden SQL keywords detected. Only SELECT queries are allowed."
  if the trimmed, lower-cased \<open>s\<close> contains one of the nine patterns anywhere, and
  \<open>(True, "")\<close> otherwise. "DROP TABLE client" fails with that message; the pattern
  \<open>create\<close> with its trailing space does not occur in \<open>created_at\<close>, and a query
  selecting that column passes.
\<close>

theorem ForbiddenKeywordsRule_validate_substring:
  "ForbiddenKeywordsRule_validate s =
     (if \<exists>keyword \<in> {''insert '', ''update '', ''delete '', ''drop '', ''alter '',
                         ''truncate '', ''create '', ''exec '', ''xp_''}.
           \<exists>p q. lower (strip s) = p @ keyword @ q
      then Inr (False, ''Forbidden SQL keywords detected. Only SELECT queries are allowed.'')
      else Inr (True, ''''))
   \<and> ForbiddenKeywordsRule_validate ''DROP TABLE client'' =
       Inr (False, ''Forbidden SQL keywords detected. Only SELECT queries are allowed.'')
   \<and> \<not> str_contains ''create '' ''created_at''
   \<and> ForbiddenKeywordsRule_validate ''SELECT created_at FROM client_info_view'' = Inr (True, '''')"
proof -
  have "list_ex (\<lambda>keyword. str_contains keyword (lower (strip s))) FORBIDDEN_KEYWORDS
        \<longleftrightarrow> (\<exists>keyword \<in> {''insert '', ''update '', ''delete '', ''drop '', ''alter '',
                         ''truncate '', ''create '', ''exec '', ''xp_''}.
           \<exists>p q. lower (strip s) = p @ keyword @ q)"
    unfolding list_ex_iff FORBIDDEN_KEYWORDS_def str_contains_iff by simp
  then have g: "ForbiddenKeywordsRule_validate s =
     (if \<exists>keyword \<in> {''insert '', ''update '', ''delete '', ''drop '', ''alter '',
                         ''truncate '', ''create '', ''exec '', ''xp_''}.
           \<exists>p q. lower (strip s) = p @ keyword @ q
      then Inr (False, ''Forbidden SQL keywords detected. Only SELECT queries are allowed.'')
      else Inr (True, ''''))"
    unfolding ForbiddenKeywordsRule_validate_def Let_def by simp
  have a: "ForbiddenKeywordsRule_validate ''DROP TABLE client'' =
       Inr (False, ''Forbidden SQL keywords detected. Only SELECT queries are allowed.'')"
    by code_simp
  have b: "\<not> str_contains ''create '' ''created_at''" by code_simp
  have c: "ForbiddenKeywordsRule_validate ''SELECT created_at FROM client_info_view'' = Inr (True, '''')"
    by code_simp
  from g a b c show ?thesis by blast
qed

theorem ForbiddenKeywordsRule_validate_substring_witness:
  "ForbiddenKeywordsRule_validate ''select 1; Delete from client'' =
     Inr (False, ''Forbidden SQL keywords detected. Only SELECT queries are allowed.'')"
proof -
  have "lower (strip ''select 1; Delete from client'') = ''select 1; '' @ ''delete '' @ ''from client''"
    by code_simp
  then have "\<exists>p q. lower (strip ''select 1; Delete from client'') = p @ ''delete '' @ q"
    by blast
  then have "\<exists>keyword \<in> {''insert '', ''update '', ''delete '', ''drop '', ''alter '',
                         ''truncate '', ''create '', ''exec '', ''xp_''}.
           \<exists>p q. lower (strip ''select 1; Delete from client'') = p @ keyword @ q"
    by blast
  with ForbiddenKeywordsRule_validate_substring [of "''select 1; Delete from client''"]
  show ?thesis by presburger
qed

text \<open>
  C9. A forbidden keyword at the very end of the input is not matched: "SELECT 1; drop" and the
  bare word "delete" pass, as does "SELECT 1; DROP " whose trailing space is trimmed away;
  and for every input no pattern other than \<open>xp_\<close> is ever a suffix of the trimmed,
  lower-cased input, since that never ends in a space.
\<close>

theorem ForbiddenKeywordsRule_keyword_at_end:
  "ForbiddenKeywordsRule_validate ''SELECT 1; drop'' = Inr (True, '''')
   \<and> ForbiddenKeywordsRule_validate ''delete'' = Inr (True, '''')
   \<and> ForbiddenKeywordsRule_validate ''SELECT 1; DROP '' = Inr (True, '''')
   \<and> (\<forall>s keyword. keyword \<in> set FORBIDDEN_KEYWORDS \<longrightarrow> keyword \<noteq> ''xp_'' \<longrightarrow>
         \<not> (\<exists>p. lower (strip s) = p @ keyword))"
proof -
  have a: "ForbiddenKeywordsRule_validate ''SELECT 1; drop'' = Inr (True, '''')" by code_simp
  have b: "ForbiddenKeywordsRule_validate ''delete'' = Inr (True, '''')" by code_simp
  have c: "ForbiddenKeywordsRule_validate ''SELECT 1; DROP '' = Inr (True, '''')" by code_simp
  have d: "\<not> (\<exists>p. lower (strip s) = p @ keyword)"
    if k: "keyword \<in> set FORBIDDEN_KEYWORDS" and x: "keyword \<noteq> ''xp_''" for s keyword
  proof
    assume "\<exists>p. lower (strip s) = p @ keyword"
    then obtain p where e: "lower (strip s) = p @ keyword" by blast
    from k x have l: "keyword \<noteq> [] \<and> last keyword = CHR '' ''"
      unfolding FORBIDDEN_KEYWORDS_def by auto
    with e have "lower (strip s) \<noteq> []" and "last (lower (strip s)) = CHR '' ''" by auto
    with lower_strip_last show False by blast
  qed
  from a b c d show ?thesis by blast
qed

theorem ForbiddenKeywordsRule_keyword_at_end_witness:
  "''drop '' \<in> set FORBIDDEN_KEYWORDS \<and> ''drop '' \<noteq> ''xp_''
   \<and> \<not> (\<exists>p. lower (strip ''SELECT 1; DROP '') = p @ ''drop '')"
proof -
  have k: "''drop '' \<in> set FORBIDDEN_KEYWORDS" by (simp add: FORBIDDEN_KEYWORDS_def)
  have x: "''drop '' \<noteq> ''xp_''" by simp
  from ForbiddenKeywordsRule_keyword_at_end k x
  have "\<not> (\<exists>p. lower (strip ''SELECT 1; DROP '') = p @ ''drop '')" by blast
  with k x show ?thesis by blast
qed

section \<open>OnlySelectStatementsRule\<close>

lemma token_first_Some_iff:
  "token_first st = Some tok \<longleftrightarrow>
     (\<exists>ws rest. st = ws @ tok # rest \<and> list_all is_whitespace ws \<and> \<not> is_whitespace tok)"
proof (induction st)
  case Nil
  then show ?case by simp
next
  case (Cons t ts)
  show ?case
  proof (cases "is_whitespace t")
    case True
    show ?thesis
    proof
      assume "token_first (t # ts) = Some tok"
      with True Cons obtain ws rest where
        "ts = ws @ tok # rest" "list_all is_whitespace ws" "\<not> is_whitespace tok" by auto
      with True have "t # ts = (t # ws) @ tok # rest \<and> list_all is_whitespace (t # ws) \<and> \<not> is_whitespace tok"
        by simp
      then show "\<exists>ws rest. t # ts = ws @ tok # rest \<and> list_all is_whitespace ws \<and> \<not> is_whitespace tok"
        by blast
    next
      assume "\<exists>ws rest. t # ts = ws @ tok # rest \<and> list_all is_whitespace ws \<and> \<not> is_whitespace tok"
      then obtain ws rest where
        e: "t # ts = ws @ tok # rest" and w: "list_all is_whitespace ws" and n: "\<not> is_whitespace tok"
        by blast
      from e True n obtain ws' where "ws = t # ws'" by (cases ws) auto
      with e w n have "ts = ws' @ tok # rest \<and> list_all is_whitespace ws' \<and> \<not> is_whitespace tok"
        by simp
      with Cons have "token_first ts = Some tok" by blast
      with True show "token_first (t # ts) = Some tok" by simp
    qed
  next
    case False
    show ?thesis
    proof
      assume "token_first (t # ts) = Some tok"
      with False have "t = tok" by simp
      with False have "t # ts = [] @ tok # ts \<and> list_all is_whitespace [] \<and> \<not> is_whitespace tok"
        by simp
      then show "\<exists>ws rest. t # ts = ws @ tok # rest \<and> list_all is_whitespace ws \<and> \<not> is_whitespace tok"
        by blast
    next
      assume "\<exists>ws rest. t # ts = ws @ tok # rest \<and> list_all is_whitespace ws \<and> \<not> is_whitespace tok"
      then obtain ws rest where
        e: "t # ts = ws @ tok # rest" and w: "list_all is_whitespace ws"
        by blast
      from e w False have "ws = []" by (cases ws) auto
      with e have "t = tok" by simp
      with False show "token_first (t # ts) = Some tok" by simp
    qed
  qed
qed

lemma token_first_None_iff: "token_first st = None \<longleftrightarrow> list_all is_whitespace st"
  by (induction st) auto

lemma check_statement_types_pass:
  "check_statement_types stmts = (True, '''') \<longleftrightarrow> list_all is_select stmts"
  by (induction stmts) (auto simp: is_select_def Let_def split: option.splits)

lemma check_statement_types_fails:
  "check_statement_types stmts \<noteq> (True, '''') \<Longrightarrow> \<exists>m. check_statement_types stmts = (False, m)"
  by (induction stmts) (auto simp: Let_def split: option.splits)

lemma check_statement_types_skip:
  "list_all is_select good \<Longrightarrow> check_statement_types (good @ rest) = check_statement_types rest"
  by (induction good) (auto simp: is_select_def Let_def split: option.splits)

lemma OnlySelect_on_parse:
  "parse s = Inr stmts \<Longrightarrow>
   OnlySelectStatementsRule_validate parse s =
     (if stmts = [] then Inr (False, ''No valid SQL statements found.'')
      else Inr (check_statement_types stmts))"
  by (simp add: OnlySelectStatementsRule_validate_def OnlySelectStatementsRule_try_def)

lemma OnlySelect_on_raise:
  "parse s = Inl (Exception e) \<Longrightarrow>
   OnlySelectStatementsRule_validate parse s =
     Inr (False, ''SQL parsing error during statement type check: '' @ e)"
  by (simp add: OnlySelectStatementsRule_validate_def OnlySelectStatementsRule_try_def)

text \<open>
  C2. For every parser and input, \<open>OnlySelectStatementsRule.validate\<close> returns \<open>(True, "")\<close>
  if and only if the parser yields at least one statement and the first token that is not
  whitespace of every statement exists and is normalized to \<open>SELECT\<close>; every other verdict
  is failing. No statements give "No valid SQL statements found."; at the first statement
  that is not a SELECT the verdict is "Invalid SQL statement structure: ..." when the
  statement has no such token, and otherwise "Forbidden statement type '...' detected. ..."
  naming that statement's type. The last two conjuncts say what \<open>token_first\<close> returns.
\<close>

theorem OnlySelectStatementsRule_validate_iff:
  "(OnlySelectStatementsRule_validate parse s = Inr (True, '''') \<longleftrightarrow>
      (\<exists>stmts. parse s = Inr stmts \<and> stmts \<noteq> [] \<and>
         (\<forall>st \<in> set stmts. \<exists>tok. token_first st = Some tok \<and> normalized tok = ''SELECT'')))
   \<and> (OnlySelectStatementsRule_validate parse s \<noteq> Inr (True, '''') \<longrightarrow>
        (\<exists>m. OnlySelectStatementsRule_validate parse s = Inr (False, m)))
   \<and> (parse s = Inr [] \<longrightarrow>
        OnlySelectStatementsRule_validate parse s = Inr (False, ''No valid SQL statements found.''))
   \<and> (\<forall>good st rest.
        parse s = Inr (good @ st # rest) \<and>
        (\<forall>g \<in> set good. \<exists>tok. token_first g = Some tok \<and> normalized tok = ''SELECT'') \<longrightarrow>
          (token_first st = None \<longrightarrow>
             OnlySelectStatementsRule_validate parse s =
               Inr (False, ''Invalid SQL statement structure: Cannot determine statement type.''))
        \<and> (\<forall>tok. token_first st = Some tok \<and> normalized tok \<noteq> ''SELECT'' \<longrightarrow>
             OnlySelectStatementsRule_validate parse s =
               Inr (False, ''Forbidden statement type '' @ [CHR 0x27] @ normalized tok @ [CHR 0x27] @
                           '' detected. Only SELECT queries are allowed.'')))
   \<and> (\<forall>st tok. token_first st = Some tok \<longleftrightarrow>
        (\<exists>ws rest. st = ws @ tok # rest \<and> list_all is_whitespace ws \<and> \<not> is_whitespace tok))
   \<and> (\<forall>st. token_first st = None \<longleftrightarrow> list_all is_whitespace st)"
proof -
  have sel: "is_select st \<longleftrightarrow> (\<exists>tok. token_first st = Some tok \<and> normalized tok = ''SELECT'')" for st
    by (auto simp: is_select_def split: option.splits)
  have all_sel: "list_all is_select stmts \<longleftrightarrow>
      (\<forall>st \<in> set stmts. \<exists>tok. token_first st = Some tok \<and> normalized tok = ''SELECT'')" for stmts
    by (simp add: list_all_iff sel)
  have c1: "OnlySelectStatementsRule_validate parse s = Inr (True, '''') \<longleftrightarrow>
      (\<exists>stmts. parse s = Inr stmts \<and> stmts \<noteq> [] \<and>
         (\<forall>st \<in> set stmts. \<exists>tok. token_first st = Some tok \<and> normalized tok = ''SELECT''))"
  proof (cases "parse s")
    case (Inl e)
    then show ?thesis by (cases e) (simp add: OnlySelect_on_raise)
  next
    case (Inr stmts)
    then show ?thesis
      by (simp add: OnlySelect_on_parse check_statement_types_pass all_sel)
  qed
  have c2: "OnlySelectStatementsRule_validate parse s \<noteq> Inr (True, '''') \<longrightarrow>
        (\<exists>m. OnlySelectStatementsRule_validate parse s = Inr (False, m))"
  proof (cases "parse s")
    case (Inl e)
    then show ?thesis by (cases e) (simp add: OnlySelect_on_raise)
  next
    case (Inr stmts)
    then show ?thesis
      using check_statement_types_fails [of stmts] by (simp add: OnlySelect_on_parse)
  qed
  have c3: "parse s = Inr [] \<longrightarrow>
        OnlySelectStatementsRule_validate parse s = Inr (False, ''No valid SQL statements found.'')"
    by (simp add: OnlySelect_on_parse)
  have c4: "(token_first st = None \<longrightarrow>
             OnlySelectStatementsRule_validate parse s =
               Inr (False, ''Invalid SQL statement structure: Cannot determine statement type.''))
        \<and> (\<forall>tok. token_first st = Some tok \<and> normalized tok \<noteq> ''SELECT'' \<longrightarrow>
             OnlySelectStatementsRule_validate parse s =
               Inr (False, ''Forbidden statement type '' @ [CHR 0x27] @ normalized tok @ [CHR 0x27] @
                           '' detected. Only SELECT queries are allowed.''))"
    if p: "parse s = Inr (good @ st # rest)"
      and g: "\<forall>g \<in> set good. \<exists>tok. token_first g = Some tok \<and> normalized tok = ''SELECT''"
    for good st rest
  proof -
    from g have "list_all is_select good" by (simp add: all_sel)
    then have "check_statement_types (good @ st # rest) = check_statement_types (st # rest)"
      by (rule check_statement_types_skip)
    with p have "OnlySelectStatementsRule_validate parse s = Inr (check_statement_types (st # rest))"
      by (simp add: OnlySelect_on_parse)
    then show ?thesis by (simp add: Let_def)
  qed
  from c1 c2 c3 c4 token_first_Some_iff token_first_None_iff show ?thesis by blast
qed

theorem OnlySelectStatementsRule_validate_iff_witness:
  "OnlySelectStatementsRule_validate example_parse ''SELECT * FROM client_info_view; SELECT 1'' =
     Inr (True, '''')
   \<and> OnlySelectStatementsRule_validate example_parse ''SELECT 1; DROP TABLE secret_table'' =
       Inr (False, ''Forbidden statement type '' @ [CHR 0x27] @ ''DROP'' @ [CHR 0x27] @
                   '' detected. Only SELECT queries are allowed.'')"
proof -
  have p1: "example_parse ''SELECT * FROM client_info_view; SELECT 1'' =
      Inr [select_from_tokens ''client_info_view'' @ [plain_token '';'', whitespace_token],
           [keyword_token ''SELECT'', whitespace_token, plain_token ''1'']]"
    by (simp add: example_parse_def example_parses_def)
  have "\<exists>stmts. example_parse ''SELECT * FROM client_info_view; SELECT 1'' = Inr stmts \<and> stmts \<noteq> [] \<and>
         (\<forall>st \<in> set stmts. \<exists>tok. token_first st = Some tok \<and> normalized tok = ''SELECT'')"
    unfolding p1 by (simp add: select_from_tokens_def)
  with OnlySelectStatementsRule_validate_iff [of example_parse "''SELECT * FROM client_info_view; SELECT 1''"]
  have a: "OnlySelectStatementsRule_validate example_parse ''SELECT * FROM client_info_view; SELECT 1'' =
     Inr (True, '''')" by blast
  have p2: "example_parse ''SELECT 1; DROP TABLE secret_table'' =
      Inr ([[keyword_token ''SELECT'', whitespace_token, plain_token ''1'', plain_token '';'',
           whitespace_token]] @
          [keyword_token ''DROP'', whitespace_token, keyword_token ''TABLE'', whitespace_token,
           identifier_group ''secret_table''] # [])"
    by (simp add: example_parse_def example_parses_def)
  have g: "\<forall>g \<in> set [[keyword_token ''SELECT'', whitespace_token, plain_token ''1'', plain_token '';'',
           whitespace_token]]. \<exists>tok. token_first g = Some tok \<and> normalized tok = ''SELECT''"
    by simp
  have t: "token_first [keyword_token ''DROP'', whitespace_token, keyword_token ''TABLE'', whitespace_token,
           identifier_group ''secret_table''] = Some (keyword_token ''DROP'')
           \<and> normalized (keyword_token ''DROP'') \<noteq> ''SELECT''"
    by simp
  from OnlySelectStatementsRule_validate_iff [of example_parse "''SELECT 1; DROP TABLE secret_table''"] p2 g t
  have b: "OnlySelectStatementsRule_validate example_parse ''SELECT 1; DROP TABLE secret_table'' =
       Inr (False, ''Forbidden statement type '' @ [CHR 0x27] @ normalized (keyword_token ''DROP'') @ [CHR 0x27] @
                   '' detected. Only SELECT queries are allowed.'')"
    by blast
  from a b show ?thesis by simp
qed

section \<open>WhitelistedTablesRule\<close>

lemma flatten_leaf: "x \<in> set (flatten t) \<Longrightarrow> \<not> isinstance_Parenthesis x"
  by (induction t arbitrary: x) auto

lemma statement_flatten_leaf: "x \<in> set (statement_flatten st) \<Longrightarrow> \<not> isinstance_Parenthesis x"
  by (auto simp: statement_flatten_def dest: flatten_leaf)

lemma next_non_whitespace_in: "next_non_whitespace xs = Some c \<Longrightarrow> c \<in> set xs"
  by (induction xs) (auto split: if_splits)

lemma next_non_whitespace_Some_iff:
  "next_non_whitespace xs = Some c \<longleftrightarrow>
     (\<exists>ws rest. xs = ws @ c # rest \<and> list_all is_whitespace ws \<and> \<not> is_whitespace c)"
proof (induction xs)
  case Nil
  then show ?case by simp
next
  case (Cons t ts)
  show ?case
  proof (cases "is_whitespace t")
    case True
    have "(\<exists>ws rest. t # ts = ws @ c # rest \<and> list_all is_whitespace ws \<and> \<not> is_whitespace c)
          \<longleftrightarrow> (\<exists>ws rest. ts = ws @ c # rest \<and> list_all is_whitespace ws \<and> \<not> is_whitespace c)"
      (is "?L \<longleftrightarrow> ?R")
    proof
      assume ?L
      then obtain ws rest where
        e: "t # ts = ws @ c # rest" and w: "list_all is_whitespace ws" and n: "\<not> is_whitespace c"
        by blast
      from e True n obtain ws' where "ws = t # ws'" by (cases ws) auto
      with e w n have "ts = ws' @ c # rest \<and> list_all is_whitespace ws' \<and> \<not> is_whitespace c"
        by simp
      then show ?R by blast
    next
      assume ?R
      then obtain ws rest where
        "ts = ws @ c # rest" "list_all is_whitespace ws" "\<not> is_whitespace c" by blast
      with True have "t # ts = (t # ws) @ c # rest \<and> list_all is_whitespace (t # ws) \<and> \<not> is_whitespace c"
        by simp
      then show ?L by blast
    qed
    with True Cons show ?thesis by simp
  next
    case False
    have "(\<exists>ws rest. t # ts = ws @ c # rest \<and> list_all is_whitespace ws \<and> \<not> is_whitespace c)
          \<longleftrightarrow> t = c" (is "?L \<longleftrightarrow> _")
    proof
      assume ?L
      then obtain ws rest where
        e: "t # ts = ws @ c # rest" and w: "list_all is_whitespace ws" by blast
      from e w False have "ws = []" by (cases ws) auto
      with e show "t = c" by simp
    next
      assume "t = c"
      with False have "t # ts = [] @ c # ts \<and> list_all is_whitespace [] \<and> \<not> is_whitespace c"
        by simp
      then show ?L by blast
    qed
    with False show ?thesis by auto
  qed
qed

lemma target_allowed_Cons:
  "target_allowed A (tok # rest) (Suc i) = target_allowed A rest i"
  by (simp add: target_allowed_def)

lemma target_allowed_0:
  "target_allowed A (tok # rest) 0 =
     (case next_non_whitespace rest of None \<Rightarrow> False | Some c \<Rightarrow> table_name_of c \<in> set A)"
  by (simp add: target_allowed_def)

lemma check_tables_step:
  "check_tables A (tok # rest) =
     (if is_from_join tok
      then (case next_non_whitespace rest of
              None \<Rightarrow> Some (False, ''Could not identify table name after FROM/JOIN clause.'')
            | Some c \<Rightarrow>
                if isinstance_Parenthesis c then check_tables A rest
                else if table_name_of c \<notin> set A
                     then Some (False, ''Access to table/object '' @ [CHR 0x27] @ table_name_of c @
                                       [CHR 0x27] @ '' is not allowed.'')
                     else check_tables A rest)
      else check_tables A rest)"
  by (auto simp: is_from_join_def Let_def split: option.splits)

lemma check_tables_None_iff:
  "\<forall>t \<in> set toks. \<not> isinstance_Parenthesis t \<Longrightarrow>
   check_tables A toks = None \<longleftrightarrow>
     (\<forall>i < length toks. is_from_join (toks ! i) \<longrightarrow> target_allowed A toks i)"
proof (induction toks)
  case Nil
  then show ?case by simp
next
  case (Cons tok rest)
  then have ih: "check_tables A rest = None \<longleftrightarrow>
     (\<forall>i < length rest. is_from_join (rest ! i) \<longrightarrow> target_allowed A rest i)" by simp
  have split: "(\<forall>i < length (tok # rest). is_from_join ((tok # rest) ! i) \<longrightarrow> target_allowed A (tok # rest) i)
     \<longleftrightarrow> ((is_from_join tok \<longrightarrow> target_allowed A (tok # rest) 0)
          \<and> (\<forall>i < length rest. is_from_join (rest ! i) \<longrightarrow> target_allowed A rest i))"
    by (simp add: All_less_Suc2 target_allowed_Cons)
  show ?case
  proof (cases "is_from_join tok")
    case False
    with ih split show ?thesis by (simp add: check_tables_step del: check_tables.simps(2))
  next
    case True
    show ?thesis
    proof (cases "next_non_whitespace rest")
      case None
      with True split show ?thesis
        by (simp add: check_tables_step target_allowed_0 del: check_tables.simps(2))
    next
      case (Some c)
      then have "c \<in> set rest" by (rule next_non_whitespace_in)
      with Cons.prems have "\<not> isinstance_Parenthesis c" by simp
      with True Some ih split show ?thesis
        by (simp add: check_tables_step target_allowed_0 del: check_tables.simps(2))
    qed
  qed
qed

lemma check_tables_first_denied:
  "\<forall>t \<in> set toks. \<not> isinstance_Parenthesis t \<Longrightarrow>
   i < length toks \<Longrightarrow> is_from_join (toks ! i) \<Longrightarrow>
   next_non_whitespace (drop (Suc i) toks) = Some c \<Longrightarrow> table_name_of c \<notin> set A \<Longrightarrow>
   \<forall>j < i. is_from_join (toks ! j) \<longrightarrow> target_allowed A toks j \<Longrightarrow>
   check_tables A toks =
     Some (False, ''Access to table/object '' @ [CHR 0x27] @ table_name_of c @ [CHR 0x27] @
                  '' is not allowed.'')"
proof (induction toks arbitrary: i)
  case Nil
  then show ?case by simp
next
  case (Cons tok rest)
  show ?case
  proof (cases i)
    case 0
    with Cons.prems have fj: "is_from_join tok" and nn: "next_non_whitespace rest = Some c" by simp_all
    from nn have "c \<in> set rest" by (rule next_non_whitespace_in)
    with Cons.prems(1) have "\<not> isinstance_Parenthesis c" by simp
    with fj nn Cons.prems(5) show ?thesis
      by (simp add: check_tables_step del: check_tables.simps(2))
  next
    case (Suc k)
    with Cons.prems have k: "k < length rest" "is_from_join (rest ! k)"
      "next_non_whitespace (drop (Suc k) rest) = Some c" by simp_all
    from Cons.prems(6) Suc have
      h0: "is_from_join tok \<longrightarrow> target_allowed A (tok # rest) 0"
      and hs: "\<forall>j < k. is_from_join (rest ! j) \<longrightarrow> target_allowed A rest j"
      by (auto simp: All_less_Suc2 target_allowed_Cons)
    from Cons.prems(1) have np: "\<forall>t \<in> set rest. \<not> isinstance_Parenthesis t" by simp
    from Cons.IH [OF np k(1) k(2) k(3) Cons.prems(5) hs]
    have r: "check_tables A rest =
       Some (False, ''Access to table/object '' @ [CHR 0x27] @ table_name_of c @ [CHR 0x27] @
                  '' is not allowed.'')" .
    show ?thesis
    proof (cases "is_from_join tok")
      case False
      with r show ?thesis by (simp add: check_tables_step del: check_tables.simps(2))
    next
      case True
      with h0 obtain c0 where c0: "next_non_whitespace rest = Some c0" "table_name_of c0 \<in> set A"
        by (auto simp: target_allowed_0 split: option.splits)
      from c0(1) have "c0 \<in> set rest" by (rule next_non_whitespace_in)
      with np have "\<not> isinstance_Parenthesis c0" by simp
      with True c0 r show ?thesis by (simp add: check_tables_step del: check_tables.simps(2))
    qed
  qed
qed

lemma check_tables_no_from_join:
  "\<forall>t \<in> set toks. \<not> is_from_join t \<Longrightarrow> check_tables A toks = None"
  by (induction toks) (simp_all add: check_tables_step del: check_tables.simps(2))

lemma Whitelisted_on_parse:
  "parse s = Inr (st # later) \<Longrightarrow>
   WhitelistedTablesRule_validate parse A s =
     (case check_tables A (statement_flatten st) of None \<Rightarrow> Inr (True, '''') | Some v \<Rightarrow> Inr v)"
  by (simp add: WhitelistedTablesRule_validate_def WhitelistedTablesRule_try_def split: option.splits)

lemma Whitelisted_on_raise:
  "parse s = Inl (Exception e) \<Longrightarrow>
   WhitelistedTablesRule_validate parse A s =
     Inr (False, ''SQL parsing error during table whitelist check: '' @ e)"
  by (simp add: WhitelistedTablesRule_validate_def WhitelistedTablesRule_try_def)

lemma Whitelisted_on_empty:
  "parse s = Inr [] \<Longrightarrow>
   WhitelistedTablesRule_validate parse A s =
     Inr (False, ''No valid SQL statements found for table check.'')"
  by (simp add: WhitelistedTablesRule_validate_def WhitelistedTablesRule_try_def)

lemma check_tables_Some_fails:
  "check_tables A toks = Some w \<Longrightarrow> \<not> fst w \<and> snd w \<noteq> ''''"
proof (induction toks)
  case Nil
  then show ?case by simp
next
  case (Cons tok rest)
  then show ?case
    by (auto simp: check_tables_step simp del: check_tables.simps(2)
             split: if_splits option.splits)
qed

text \<open>
  C3. \<open>WhitelistedTablesRule.validate\<close> walks the flattened token stream of the first parsed
  statement. It passes exactly when every \<open>FROM\<close>/\<open>JOIN\<close> keyword token of the stream
  has a next token that is not whitespace whose table name (quotes stripped, lower-cased) is
  in the lower-cased allowed list; at the first keyword whose target's name is absent it
  returns the failing verdict "Access to table/object '<name>' is not allowed.". The next
  conjuncts state what the forward scan returns and how the table name is computed, and the
  last is the example: "SELECT name FROM secret_table" with client_info_view and positions
  allowed fails with that message for secret_table.
\<close>

theorem WhitelistedTablesRule_validate_targets:
  "(\<forall>st later. parse s = Inr (st # later) \<longrightarrow>
      (validate parse (WhitelistedTablesRule_init tables) s = Inr (True, '''') \<longleftrightarrow>
         (\<forall>i < length (statement_flatten st).
            is_from_join (statement_flatten st ! i) \<longrightarrow>
            target_allowed (map lower tables) (statement_flatten st) i))
    \<and> (\<forall>i c. i < length (statement_flatten st) \<and> is_from_join (statement_flatten st ! i) \<and>
            next_non_whitespace (drop (Suc i) (statement_flatten st)) = Some c \<and>
            table_name_of c \<notin> set (map lower tables) \<and>
            (\<forall>j < i. is_from_join (statement_flatten st ! j) \<longrightarrow>
               target_allowed (map lower tables) (statement_flatten st) j) \<longrightarrow>
          validate parse (WhitelistedTablesRule_init tables) s =
            Inr (False, ''Access to table/object '' @ [CHR 0x27] @ table_name_of c @ [CHR 0x27] @
                        '' is not allowed.'')))
   \<and> (\<forall>xs c. next_non_whitespace xs = Some c \<longleftrightarrow>
        (\<exists>ws rest. xs = ws @ c # rest \<and> list_all is_whitespace ws \<and> \<not> is_whitespace c))
   \<and> (\<forall>c. table_name_of c =
        lower (strip_chars [CHR 0x60] (strip_chars [CHR 0x27] (strip_chars [CHR 0x22] (normalized c)))))
   \<and> table_name_of (plain_token ([CHR 0x22] @ ''Secret_Table'' @ [CHR 0x22])) = ''secret_table''
   \<and> validate example_parse (WhitelistedTablesRule_init [''client_info_view'', ''positions''])
        ''SELECT name FROM secret_table'' =
      Inr (False, ''Access to table/object '' @ [CHR 0x27] @ ''secret_table'' @ [CHR 0x27] @
                  '' is not allowed.'')"
proof -
  have a: "(validate parse (WhitelistedTablesRule_init tables) s = Inr (True, '''') \<longleftrightarrow>
         (\<forall>i < length (statement_flatten st).
            is_from_join (statement_flatten st ! i) \<longrightarrow>
            target_allowed (map lower tables) (statement_flatten st) i))
    \<and> (\<forall>i c. i < length (statement_flatten st) \<and> is_from_join (statement_flatten st ! i) \<and>
            next_non_whitespace (drop (Suc i) (statement_flatten st)) = Some c \<and>
            table_name_of c \<notin> set (map lower tables) \<and>
            (\<forall>j < i. is_from_join (statement_flatten st ! j) \<longrightarrow>
               target_allowed (map lower tables) (statement_flatten st) j) \<longrightarrow>
          validate parse (WhitelistedTablesRule_init tables) s =
            Inr (False, ''Access to table/object '' @ [CHR 0x27] @ table_name_of c @ [CHR 0x27] @
                        '' is not allowed.''))"
    if p: "parse s = Inr (st # later)" for st later
  proof -
    have leaves: "\<forall>t \<in> set (statement_flatten st). \<not> isinstance_Parenthesis t"
      by (simp add: statement_flatten_leaf)
    have v: "validate parse (WhitelistedTablesRule_init tables) s =
        (case check_tables (map lower tables) (statement_flatten st) of
           None \<Rightarrow> Inr (True, '''') | Some v \<Rightarrow> Inr v)"
      using p by (simp add: WhitelistedTablesRule_init_def Whitelisted_on_parse)
    have pass: "validate parse (WhitelistedTablesRule_init tables) s = Inr (True, '''') \<longleftrightarrow>
         (\<forall>i < length (statement_flatten st).
            is_from_join (statement_flatten st ! i) \<longrightarrow>
            target_allowed (map lower tables) (statement_flatten st) i)"
    proof (cases "check_tables (map lower tables) (statement_flatten st)")
      case None
      with v check_tables_None_iff [OF leaves, of "map lower tables"] show ?thesis by simp
    next
      case (Some w)
      then have "\<not> fst w" by (simp add: check_tables_Some_fails)
      then have "w \<noteq> (True, '''')" by auto
      with v Some check_tables_None_iff [OF leaves, of "map lower tables"] show ?thesis by simp
    qed
    have deny: "validate parse (WhitelistedTablesRule_init tables) s =
            Inr (False, ''Access to table/object '' @ [CHR 0x27] @ table_name_of c @ [CHR 0x27] @
                        '' is not allowed.'')"
      if "i < length (statement_flatten st)" "is_from_join (statement_flatten st ! i)"
        "next_non_whitespace (drop (Suc i) (statement_flatten st)) = Some c"
        "table_name_of c \<notin> set (map lower tables)"
        "\<forall>j < i. is_from_join (statement_flatten st ! j) \<longrightarrow>
               target_allowed (map lower tables) (statement_flatten st) j"
      for i c
      using v check_tables_first_denied [OF leaves that] by simp
    from pass deny show ?thesis by blast
  qed
  have b: "next_non_whitespace xs = Some c \<longleftrightarrow>
        (\<exists>ws rest. xs = ws @ c # rest \<and> list_all is_whitespace ws \<and> \<not> is_whitespace c)" for xs c
    by (rule next_non_whitespace_Some_iff)
  have c: "table_name_of c =
        lower (strip_chars [CHR 0x60] (strip_chars [CHR 0x27] (strip_chars [CHR 0x22] (normalized c))))" for c
    by (simp add: table_name_of_def)
  have d: "table_name_of (plain_token ([CHR 0x22] @ ''Secret_Table'' @ [CHR 0x22])) = ''secret_table''"
    by code_simp
  have e: "validate example_parse (WhitelistedTablesRule_init [''client_info_view'', ''positions''])
        ''SELECT name FROM secret_table'' =
      Inr (False, ''Access to table/object '' @ [CHR 0x27] @ ''secret_table'' @ [CHR 0x27] @
                  '' is not allowed.'')"
    by code_simp
  from a b c d e show ?thesis by blast
qed

theorem WhitelistedTablesRule_validate_targets_witness:
  "validate example_parse (WhitelistedTablesRule_init [''client_info_view'', ''positions''])
        ''SELECT name FROM secret_table'' =
      Inr (False, ''Access to table/object '' @ [CHR 0x27] @ ''secret_table'' @ [CHR 0x27] @
                  '' is not allowed.'')
   \<and> validate example_parse (WhitelistedTablesRule_init [''Client_Info_View''])
        ''SELECT * FROM client_info_view'' = Inr (True, '''')"
proof -
  let ?st = "[keyword_token ''SELECT'', whitespace_token, keyword_token ''NAME'', whitespace_token,
           keyword_token ''FROM'', whitespace_token, identifier_group ''secret_table'']"
  let ?tables = "[''client_info_view'', ''positions'']"
  have p: "example_parse ''SELECT name FROM secret_table'' = Inr (?st # [])"
    by (simp add: example_parse_def example_parses_def)
  have f: "statement_flatten ?st =
      [keyword_token ''SELECT'', whitespace_token, keyword_token ''NAME'', whitespace_token,
       keyword_token ''FROM'', whitespace_token, plain_token ''secret_table'']"
    by (simp add: statement_flatten_def)
  have h1: "4 < length (statement_flatten ?st)" unfolding f by simp
  have h2: "is_from_join (statement_flatten ?st ! 4)" unfolding f by (simp add: is_from_join_def)
  have h3: "next_non_whitespace (drop (Suc 4) (statement_flatten ?st)) =
      Some (plain_token ''secret_table'')" unfolding f by simp
  have n: "table_name_of (plain_token ''secret_table'') = ''secret_table''" by code_simp
  have l: "map lower ?tables = ?tables" by code_simp
  have h4: "table_name_of (plain_token ''secret_table'') \<notin> set (map lower ?tables)"
    unfolding n l by simp
  have h5: "\<forall>j < 4. is_from_join (statement_flatten ?st ! j) \<longrightarrow>
      target_allowed (map lower ?tables) (statement_flatten ?st) j"
    unfolding f by (simp add: eval_nat_numeral All_less_Suc is_from_join_def)
  from WhitelistedTablesRule_validate_targets [of example_parse "''SELECT name FROM secret_table''" ?tables]
    p h1 h2 h3 h4 h5
  have "validate example_parse (WhitelistedTablesRule_init ?tables) ''SELECT name FROM secret_table'' =
      Inr (False, ''Access to table/object '' @ [CHR 0x27] @
                  table_name_of (plain_token ''secret_table'') @ [CHR 0x27] @ '' is not allowed.'')"
    by blast
  then have a: "validate example_parse (WhitelistedTablesRule_init ?tables) ''SELECT name FROM secret_table'' =
      Inr (False, ''Access to table/object '' @ [CHR 0x27] @ ''secret_table'' @ [CHR 0x27] @
                  '' is not allowed.'')"
    unfolding n .
  let ?st1 = "select_from_tokens ''client_info_view''"
  have p1: "example_parse ''SELECT * FROM client_info_view'' = Inr (?st1 # [])"
    by (simp add: example_parse_def example_parses_def)
  have f1: "statement_flatten ?st1 =
      [keyword_token ''SELECT'', whitespace_token, plain_token ''*'', whitespace_token,
       keyword_token ''FROM'', whitespace_token, plain_token ''client_info_view'']"
    by (simp add: statement_flatten_def select_from_tokens_def)
  have n1: "table_name_of (plain_token ''client_info_view'') = ''client_info_view''" by code_simp
  have l1: "map lower [''Client_Info_View''] = [''client_info_view'']" by code_simp
  have g: "\<forall>i < length (statement_flatten ?st1).
            is_from_join (statement_flatten ?st1 ! i) \<longrightarrow>
            target_allowed (map lower [''Client_Info_View'']) (statement_flatten ?st1) i"
    unfolding f1 l1
    by (simp add: eval_nat_numeral All_less_Suc is_from_join_def target_allowed_def n1)
  from WhitelistedTablesRule_validate_targets [of example_parse "''SELECT * FROM client_info_view''" "[''Client_Info_View'']"]
    p1 g
  have b: "validate example_parse (WhitelistedTablesRule_init [''Client_Info_View''])
        ''SELECT * FROM client_info_view'' = Inr (True, '''')"
    by blast
  from a b show ?thesis by simp
qed

text \<open>
  C5. A parenthesized subquery after \<open>FROM\<close> is not skipped. The flattened stream holds
  leaf tokens only, so the candidate after \<open>FROM\<close> is the opening parenthesis itself,
  never an instance of \<^verbatim>\<open>Parenthesis\<close>, and it is looked up as a table name:
  "SELECT * FROM (SELECT a FROM t) AS x" with \<open>t\<close> allowed fails with
  "Access to table/object '(' is not allowed.".
\<close>

theorem WhitelistedTablesRule_subquery_source_rejected:
  "validate example_parse (WhitelistedTablesRule_init [''t''])
        ''SELECT * FROM (SELECT a FROM t) AS x'' =
      Inr (False, ''Access to table/object '' @ [CHR 0x27] @ ''('' @ [CHR 0x27] @
                  '' is not allowed.'')
   \<and> (\<forall>st. \<forall>t \<in> set (statement_flatten st). \<not> isinstance_Parenthesis t)"
proof -
  have a: "validate example_parse (WhitelistedTablesRule_init [''t''])
        ''SELECT * FROM (SELECT a FROM t) AS x'' =
      Inr (False, ''Access to table/object '' @ [CHR 0x27] @ ''('' @ [CHR 0x27] @
                  '' is not allowed.'')"
    by code_simp
  from a statement_flatten_leaf show ?thesis by blast
qed

theorem WhitelistedTablesRule_subquery_source_rejected_witness:
  "next_non_whitespace (drop 5 (statement_flatten subquery_statement)) = Some (plain_token ''('')
   \<and> \<not> isinstance_Parenthesis (plain_token ''('')"
proof -
  have n: "next_non_whitespace (drop 5 (statement_flatten subquery_statement)) = Some (plain_token ''('')"
    by code_simp
  then have "plain_token ''('' \<in> set (drop 5 (statement_flatten subquery_statement))"
    by (rule next_non_whitespace_in)
  then have "plain_token ''('' \<in> set (statement_flatten subquery_statement)"
    by (rule in_set_dropD)
  with WhitelistedTablesRule_subquery_source_rejected
  have "\<not> isinstance_Parenthesis (plain_token ''('')" by blast
  with n show ?thesis by simp
qed

text \<open>
  C6. \<open>WhitelistedTablesRule.validate\<close> inspects the first parsed statement only: two inputs
  whose parses start with the same statement get the same verdict, whatever statements follow,
  and the verdict is the outcome of the walk over that first statement.
\<close>

theorem WhitelistedTablesRule_first_statement_only:
  "(parse s1 = Inr (st # later1) \<and> parse s2 = Inr (st # later2) \<longrightarrow>
      validate parse (WhitelistedTablesRule allowed) s1 =
      validate parse (WhitelistedTablesRule allowed) s2)
   \<and> (parse s1 = Inr (st # later1) \<longrightarrow>
      validate parse (WhitelistedTablesRule allowed) s1 =
        (case check_tables allowed (statement_flatten st) of
           None \<Rightarrow> Inr (True, '''') | Some v \<Rightarrow> Inr v))"
  by (simp add: Whitelisted_on_parse)

theorem WhitelistedTablesRule_first_statement_only_witness:
  "validate example_parse (WhitelistedTablesRule [''client_info_view''])
     ''SELECT * FROM client_info_view; SELECT * FROM secret_table'' =
   validate example_parse (WhitelistedTablesRule [''client_info_view''])
     ''SELECT * FROM client_info_view; SELECT 1''
   \<and> validate example_parse (WhitelistedTablesRule [''client_info_view''])
     ''SELECT * FROM client_info_view; SELECT * FROM secret_table'' = Inr (True, '''')"
proof -
  let ?st = "select_from_tokens ''client_info_view'' @ [plain_token '';'', whitespace_token]"
  have p1: "example_parse ''SELECT * FROM client_info_view; SELECT * FROM secret_table'' =
      Inr (?st # [select_from_tokens ''secret_table''])"
    by (simp add: example_parse_def example_parses_def)
  have p2: "example_parse ''SELECT * FROM client_info_view; SELECT 1'' =
      Inr (?st # [[keyword_token ''SELECT'', whitespace_token, plain_token ''1'']])"
    by (simp add: example_parse_def example_parses_def)
  have c: "check_tables [''client_info_view''] (statement_flatten ?st) = None"
    by code_simp
  from WhitelistedTablesRule_first_statement_only
    [of example_parse "''SELECT * FROM client_info_view; SELECT * FROM secret_table''" ?st
        "[select_from_tokens ''secret_table'']" "''SELECT * FROM client_info_view; SELECT 1''"
        "[[keyword_token ''SELECT'', whitespace_token, plain_token ''1'']]" "[''client_info_view'']"]
    p1 p2
  have e: "validate example_parse (WhitelistedTablesRule [''client_info_view''])
       ''SELECT * FROM client_info_view; SELECT * FROM secret_table'' =
     validate example_parse (WhitelistedTablesRule [''client_info_view''])
       ''SELECT * FROM client_info_view; SELECT 1''"
    and r: "validate example_parse (WhitelistedTablesRule [''client_info_view''])
       ''SELECT * FROM client_info_view; SELECT * FROM secret_table'' =
     (case check_tables [''client_info_view''] (statement_flatten ?st) of
        None \<Rightarrow> Inr (True, '''') | Some v \<Rightarrow> Inr v)"
    by blast+
  from r have "validate example_parse (WhitelistedTablesRule [''client_info_view''])
       ''SELECT * FROM client_info_view; SELECT * FROM secret_table'' = Inr (True, '''')"
    unfolding c by simp
  with e show ?thesis by argo
qed

text \<open>
  C10. If the flattened stream of the first parsed statement has no keyword token normalized
  to \<open>FROM\<close> or \<open>JOIN\<close>, \<open>WhitelistedTablesRule.validate\<close> returns \<open>(True, "")\<close>
  for every allowed list, the empty one included.
\<close>

theorem WhitelistedTablesRule_no_from_join:
  "parse s = Inr (st # later) \<and>
   (\<forall>t \<in> set (statement_flatten st).
      \<not> (is_keyword t \<and> (normalized t = ''FROM'' \<or> normalized t = ''JOIN''))) \<longrightarrow>
   validate parse (WhitelistedTablesRule allowed) s = Inr (True, '''')"
proof
  assume h: "parse s = Inr (st # later) \<and>
   (\<forall>t \<in> set (statement_flatten st).
      \<not> (is_keyword t \<and> (normalized t = ''FROM'' \<or> normalized t = ''JOIN'')))"
  then have "\<forall>t \<in> set (statement_flatten st). \<not> is_from_join t"
    by (simp add: is_from_join_def)
  then have "check_tables allowed (statement_flatten st) = None"
    by (rule check_tables_no_from_join)
  with h show "validate parse (WhitelistedTablesRule allowed) s = Inr (True, '''')"
    by (simp add: Whitelisted_on_parse)
qed

theorem WhitelistedTablesRule_no_from_join_witness:
  "validate example_parse (WhitelistedTablesRule []) ''SELECT 1'' = Inr (True, '''')
   \<and> validate example_parse (WhitelistedTablesRule_init [''client_info_view'']) ''SELECT 1'' =
       Inr (True, '''')"
proof -
  let ?st = "[keyword_token ''SELECT'', whitespace_token, plain_token ''1'']"
  have p: "example_parse ''SELECT 1'' = Inr (?st # [])"
    by (simp add: example_parse_def example_parses_def)
  have n: "\<forall>t \<in> set (statement_flatten ?st).
      \<not> (is_keyword t \<and> (normalized t = ''FROM'' \<or> normalized t = ''JOIN''))"
    by (simp add: statement_flatten_def)
  from WhitelistedTablesRule_no_from_join [of example_parse "''SELECT 1''" ?st "[]" "[]"] p n
  have a: "validate example_parse (WhitelistedTablesRule []) ''SELECT 1'' = Inr (True, '''')"
    by blast
  from WhitelistedTablesRule_no_from_join
    [of example_parse "''SELECT 1''" ?st "[]" "map lower [''client_info_view'']"] p n
  have b: "validate example_parse (WhitelistedTablesRule_init [''client_info_view'']) ''SELECT 1'' =
       Inr (True, '''')"
    unfolding WhitelistedTablesRule_init_def by blast
  from a b show ?thesis by simp
qed

section \<open>RuleExecutor and the verdicts\<close>

lemma check_statement_types_verdict:
  "check_statement_types stmts = (b, m) \<Longrightarrow> (m = '''' \<longleftrightarrow> b)"
  by (induction stmts) (auto simp: Let_def split: option.splits if_splits)



lemma Forbidden_verdict:
  "ForbiddenKeywordsRule_validate s = Inr (True, '''') \<or>
   ForbiddenKeywordsRule_validate s =
     Inr (False, ''Forbidden SQL keywords detected. Only SELECT queries are allowed.'')"
  by (simp add: ForbiddenKeywordsRule_validate_def Let_def)

lemma OnlySelect_verdict:
  "OnlySelectStatementsRule_validate parse s = Inr (True, '''') \<or>
   (\<exists>m. m \<noteq> '''' \<and> OnlySelectStatementsRule_validate parse s = Inr (False, m))"
proof (cases "parse s")
  case (Inl e)
  then obtain x where "parse s = Inl (Exception x)" by (cases e) simp
  then have "OnlySelectStatementsRule_validate parse s =
      Inr (False, ''SQL parsing error during statement type check: '' @ x)"
    by (rule OnlySelect_on_raise)
  then show ?thesis by simp
next
  case (Inr stmts)
  obtain b m where c: "check_statement_types stmts = (b, m)" by (cases "check_statement_types stmts")
  then have "m = '''' \<longleftrightarrow> b" by (rule check_statement_types_verdict)
  with Inr c show ?thesis by (cases b) (auto simp: OnlySelect_on_parse)
qed

lemma Whitelisted_verdict:
  "WhitelistedTablesRule_validate parse A s = Inr (True, '''') \<or>
   (\<exists>m. m \<noteq> '''' \<and> WhitelistedTablesRule_validate parse A s = Inr (False, m))"
proof (cases "parse s")
  case (Inl e)
  then obtain x where "parse s = Inl (Exception x)" by (cases e) simp
  then have "WhitelistedTablesRule_validate parse A s =
      Inr (False, ''SQL parsing error during table whitelist check: '' @ x)"
    by (rule Whitelisted_on_raise)
  then show ?thesis by simp
next
  case (Inr stmts)
  show ?thesis
  proof (cases stmts)
    case Nil
    with Inr show ?thesis by (simp add: Whitelisted_on_empty)
  next
    case (Cons st later)
    show ?thesis
    proof (cases "check_tables A (statement_flatten st)")
      case None
      with Inr Cons show ?thesis by (simp add: Whitelisted_on_parse)
    next
      case (Some w)
      then have "\<not> fst w \<and> snd w \<noteq> ''''" by (rule check_tables_Some_fails)
      with Inr Cons Some show ?thesis by (cases w) (auto simp: Whitelisted_on_parse)
    qed
  qed
qed

lemma module_rule_verdict:
  "is_module_rule r \<Longrightarrow>
   validate parse r s = Inr (True, '''') \<or>
   (\<exists>m. m \<noteq> '''' \<and> validate parse r s = Inr (False, m))"
proof (cases r)
  case ForbiddenKeywordsRule
  with Forbidden_verdict [of s] show ?thesis by auto
next
  case OnlySelectStatementsRule
  with OnlySelect_verdict [of parse s] show ?thesis by simp
next
  case (WhitelistedTablesRule A)
  with Whitelisted_verdict [of parse A s] show ?thesis by simp
next
  case (OtherRule f)
  assume "is_module_rule r"
  with OtherRule show ?thesis by simp
qed

lemma execute_rules_Nil: "execute_rules parse [] s = Inr (True, ''All rules passed.'')"
  by (simp add: execute_rules_def)

lemma execute_rules_pass_step:
  "validate parse r s = Inr (True, m) \<Longrightarrow>
   execute_rules parse (r # rules) s = execute_rules parse rules s \<and>
   rules_called parse (r # rules) s = r # rules_called parse rules s"
  by (simp add: execute_rules_def rules_called_def split: prod.splits)

lemma execute_rules_fail_step:
  "validate parse r s = Inr (False, m) \<Longrightarrow>
   execute_rules parse (r # rules) s = Inr (False, m) \<and>
   rules_called parse (r # rules) s = [r]"
  by (simp add: execute_rules_def rules_called_def)

lemma execute_rules_prefix:
  "\<forall>q \<in> set pre. \<exists>m. validate parse q s = Inr (True, m) \<Longrightarrow>
   execute_rules parse (pre @ rules) s = execute_rules parse rules s \<and>
   rules_called parse (pre @ rules) s = pre @ rules_called parse rules s"
proof (induction pre)
  case Nil
  then show ?case by simp
next
  case (Cons q pre)
  then obtain m where "validate parse q s = Inr (True, m)" by auto
  then have "execute_rules parse (q # pre @ rules) s = execute_rules parse (pre @ rules) s \<and>
     rules_called parse (q # pre @ rules) s = q # rules_called parse (pre @ rules) s"
    by (rule execute_rules_pass_step)
  with Cons show ?case by simp
qed

lemma execute_rules_module_verdict:
  "\<forall>r \<in> set rules. is_module_rule r \<Longrightarrow>
   \<exists>b m. execute_rules parse rules s = Inr (b, m) \<and>
     (if b then m = ''All rules passed.'' else m \<noteq> '''')"
proof (induction rules)
  case Nil
  have "execute_rules parse [] s = Inr (True, ''All rules passed.'') \<and>
      (if True then ''All rules passed.'' = ''All rules passed.'' else ''All rules passed.'' \<noteq> [])"
    by (simp add: execute_rules_Nil)
  then show ?case by blast
next
  case (Cons r rules)
  then have "is_module_rule r" by simp
  then consider "validate parse r s = Inr (True, '''')"
    | m where "m \<noteq> ''''" "validate parse r s = Inr (False, m)"
    using module_rule_verdict by blast
  then show ?case
  proof cases
    case 1
    then have "execute_rules parse (r # rules) s = execute_rules parse rules s"
      by (simp add: execute_rules_pass_step)
    with Cons show ?thesis by simp
  next
    case 2
    then have "execute_rules parse (r # rules) s = Inr (False, m) \<and>
        (if False then m = ''All rules passed.'' else m \<noteq> '''')"
      by (simp add: execute_rules_fail_step)
    then show ?thesis by blast
  qed
qed

text \<open>
  C4. \<open>RuleExecutor.execute_rules\<close> evaluates the rules in order. When the rules before
  \<open>r\<close> pass and \<open>r\<close> fails with message \<open>m\<close>, the result is \<open>(False, m)\<close> and the
  rules called are exactly those up to \<open>r\<close>, whatever rules follow it; when every rule
  passes, the result is \<open>(True, "All rules passed.")\<close> and every rule was called.
\<close>

theorem execute_rules_fail_fast:
  "(\<forall>pre r rest m.
      (\<forall>q \<in> set pre. \<exists>m'. validate parse q s = Inr (True, m')) \<and>
      validate parse r s = Inr (False, m) \<longrightarrow>
        execute_rules parse (pre @ r # rest) s = Inr (False, m) \<and>
        rules_called parse (pre @ r # rest) s = pre @ [r])
   \<and> ((\<forall>q \<in> set rules. \<exists>m'. validate parse q s = Inr (True, m')) \<longrightarrow>
        execute_rules parse rules s = Inr (True, ''All rules passed.'') \<and>
        rules_called parse rules s = rules)"
proof -
  have a: "execute_rules parse (pre @ r # rest) s = Inr (False, m) \<and>
        rules_called parse (pre @ r # rest) s = pre @ [r]"
    if p: "\<forall>q \<in> set pre. \<exists>m'. validate parse q s = Inr (True, m')"
      and f: "validate parse r s = Inr (False, m)"
    for pre r rest m
    using execute_rules_prefix [OF p, of "r # rest"] execute_rules_fail_step [OF f, of rest]
    by simp
  have b: "execute_rules parse rules s = Inr (True, ''All rules passed.'') \<and>
        rules_called parse rules s = rules"
    if p: "\<forall>q \<in> set rules. \<exists>m'. validate parse q s = Inr (True, m')"
    using execute_rules_prefix [OF p, of "[]"]
    by (simp add: execute_rules_Nil) (simp add: rules_called_def)
  from a b show ?thesis by blast
qed

theorem execute_rules_fail_fast_witness:
  "execute_rules example_parse
     [ForbiddenKeywordsRule, OnlySelectStatementsRule,
      WhitelistedTablesRule_init [''client_info_view'', ''positions''], ForbiddenKeywordsRule]
     ''SELECT name FROM secret_table'' =
     Inr (False, ''Access to table/object '' @ [CHR 0x27] @ ''secret_table'' @ [CHR 0x27] @
                 '' is not allowed.'')
   \<and> rules_called example_parse
     [ForbiddenKeywordsRule, OnlySelectStatementsRule,
      WhitelistedTablesRule_init [''client_info_view'', ''positions''], ForbiddenKeywordsRule]
     ''SELECT name FROM secret_table'' =
     [ForbiddenKeywordsRule, OnlySelectStatementsRule,
      WhitelistedTablesRule_init [''client_info_view'', ''positions'']]
   \<and> execute_rules example_parse
     [ForbiddenKeywordsRule, OnlySelectStatementsRule,
      WhitelistedTablesRule_init [''client_info_view'']]
     ''SELECT * FROM client_info_view'' = Inr (True, ''All rules passed.'')"
proof -
  let ?w = "WhitelistedTablesRule_init [''client_info_view'', ''positions'']"
  let ?s = "''SELECT name FROM secret_table''"
  have v1: "validate example_parse ForbiddenKeywordsRule ?s = Inr (True, '''')" by code_simp
  have v2: "validate example_parse OnlySelectStatementsRule ?s = Inr (True, '''')" by code_simp
  have v3: "validate example_parse ?w ?s =
     Inr (False, ''Access to table/object '' @ [CHR 0x27] @ ''secret_table'' @ [CHR 0x27] @
                 '' is not allowed.'')" by code_simp
  from v1 v2 have p: "\<forall>q \<in> set [ForbiddenKeywordsRule, OnlySelectStatementsRule].
      \<exists>m'. validate example_parse q ?s = Inr (True, m')" by simp
  from execute_rules_fail_fast [of example_parse ?s] p v3
  have "execute_rules example_parse
          ([ForbiddenKeywordsRule, OnlySelectStatementsRule] @ ?w # [ForbiddenKeywordsRule]) ?s =
        Inr (False, ''Access to table/object '' @ [CHR 0x27] @ ''secret_table'' @ [CHR 0x27] @
                 '' is not allowed.'')
      \<and> rules_called example_parse
          ([ForbiddenKeywordsRule, OnlySelectStatementsRule] @ ?w # [ForbiddenKeywordsRule]) ?s =
        [ForbiddenKeywordsRule, OnlySelectStatementsRule] @ [?w]"
    by blast
  then have a: "execute_rules example_parse
          [ForbiddenKeywordsRule, OnlySelectStatementsRule, ?w, ForbiddenKeywordsRule] ?s =
        Inr (False, ''Access to table/object '' @ [CHR 0x27] @ ''secret_table'' @ [CHR 0x27] @
                 '' is not allowed.'')
      \<and> rules_called example_parse
          [ForbiddenKeywordsRule, OnlySelectStatementsRule, ?w, ForbiddenKeywordsRule] ?s =
        [ForbiddenKeywordsRule, OnlySelectStatementsRule, ?w]"
    by simp
  let ?w1 = "WhitelistedTablesRule_init [''client_info_view'']"
  let ?s1 = "''SELECT * FROM client_info_view''"
  have u1: "validate example_parse ForbiddenKeywordsRule ?s1 = Inr (True, '''')" by code_simp
  have u2: "validate example_parse OnlySelectStatementsRule ?s1 = Inr (True, '''')" by code_simp
  have u3: "validate example_parse ?w1 ?s1 = Inr (True, '''')" by code_simp
  from u1 u2 u3 have q: "\<forall>q \<in> set [ForbiddenKeywordsRule, OnlySelectStatementsRule, ?w1].
      \<exists>m'. validate example_parse q ?s1 = Inr (True, m')" by simp
  from execute_rules_fail_fast
    [of example_parse ?s1 "[ForbiddenKeywordsRule, OnlySelectStatementsRule, ?w1]"] q
  have b: "execute_rules example_parse [ForbiddenKeywordsRule, OnlySelectStatementsRule, ?w1] ?s1 =
      Inr (True, ''All rules passed.'')"
    by blast
  from a b show ?thesis by blast
qed

text \<open>
  C7. For every parser and input, the \<open>validate\<close> of each of the three rules returns a
  verdict and raises nothing; an exception raised by the parser is turned by
  \<open>OnlySelectStatementsRule\<close> and \<open>WhitelistedTablesRule\<close> into a failing verdict whose
  message starts "SQL parsing error during ..." followed by the exception's text; and
  \<open>execute_rules\<close> over any list of these rules returns a verdict.
\<close>

theorem rules_never_raise:
  "(\<exists>b m. validate parse ForbiddenKeywordsRule s = Inr (b, m))
   \<and> (\<exists>b m. validate parse OnlySelectStatementsRule s = Inr (b, m))
   \<and> (\<exists>b m. validate parse (WhitelistedTablesRule allowed) s = Inr (b, m))
   \<and> (\<forall>e. parse s = Inl (Exception e) \<longrightarrow>
        validate parse OnlySelectStatementsRule s =
          Inr (False, ''SQL parsing error during statement type check: '' @ e) \<and>
        validate parse (WhitelistedTablesRule allowed) s =
          Inr (False, ''SQL parsing error during table whitelist check: '' @ e))
   \<and> ((\<forall>r \<in> set rules. is_module_rule r) \<longrightarrow>
        (\<exists>b m. execute_rules parse rules s = Inr (b, m)))"
proof -
  have a: "\<exists>b m. validate parse ForbiddenKeywordsRule s = Inr (b, m)"
    using module_rule_verdict [of ForbiddenKeywordsRule parse s] by auto
  have b: "\<exists>b m. validate parse OnlySelectStatementsRule s = Inr (b, m)"
    using module_rule_verdict [of OnlySelectStatementsRule parse s] by auto
  have c: "\<exists>b m. validate parse (WhitelistedTablesRule allowed) s = Inr (b, m)"
    using module_rule_verdict [of "WhitelistedTablesRule allowed" parse s] by auto
  have d: "validate parse OnlySelectStatementsRule s =
          Inr (False, ''SQL parsing error during statement type check: '' @ e) \<and>
        validate parse (WhitelistedTablesRule allowed) s =
          Inr (False, ''SQL parsing error during table whitelist check: '' @ e)"
    if "parse s = Inl (Exception e)" for e
    using that by (simp add: OnlySelect_on_raise Whitelisted_on_raise)
  have e: "\<exists>b m. execute_rules parse rules s = Inr (b, m)"
    if "\<forall>r \<in> set rules. is_module_rule r"
    using execute_rules_module_verdict [OF that, of parse s] by blast
  from a b c d e show ?thesis by blast
qed

theorem rules_never_raise_witness:
  "validate example_parse OnlySelectStatementsRule ''SELECT'' =
     Inr (False, ''SQL parsing error during statement type check: no parse recorded'')
   \<and> validate example_parse (WhitelistedTablesRule [''client_info_view'']) ''SELECT'' =
     Inr (False, ''SQL parsing error during table whitelist check: no parse recorded'')"
proof -
  have p: "example_parse ''SELECT'' = Inl (Exception ''no parse recorded'')"
    by (simp add: example_parse_def example_parses_def)
  from rules_never_raise [of example_parse "''SELECT''" "[''client_info_view'']"] p
  have "validate example_parse OnlySelectStatementsRule ''SELECT'' =
          Inr (False, ''SQL parsing error during statement type check: '' @ ''no parse recorded'') \<and>
        validate example_parse (WhitelistedTablesRule [''client_info_view'']) ''SELECT'' =
          Inr (False, ''SQL parsing error during table whitelist check: '' @ ''no parse recorded'')"
    by blast
  then show ?thesis by simp
qed







end
